theory Spec2Isabelle
  imports
    Main
    "HOL-Library.Word"
    "HOL-Library.Signed_Division"
    "HOL-Library.Log_Nat"
    "HOL-Library.Stream"
begin

section \<open>CandyCache: a key/value cache with time-to-live\<close>

text \<open>
  The development follows \<^verbatim>\<open>candycache.go\<close>. A method of \<^verbatim>\<open>*Cache\<close> becomes a
  function that takes the cache and returns the new cache (and the result, if any).
  What the method reads from its environment is an explicit argument:
  \<^item> the value of \<^verbatim>\<open>time.Now().Unix()\<close>, an \<^verbatim>\<open>int64\<close>, at each place where it is read;
  \<^item> the order in which a \<^verbatim>\<open>range\<close> loop yields the keys of the Go map, which the
    language leaves unspecified.
  Every method holds the mutex of the cache for its whole body, so calls are modelled
  one after the other; the mutex itself is not part of the state.
\<close>

subsection \<open>Machine integers and the float64 arithmetic of \<^verbatim>\<open>Duration.Seconds\<close>\<close>

type_synonym int64 = "64 word"

text \<open>
  \<^verbatim>\<open>Add\<close> computes \<^verbatim>\<open>int64(ttl.Seconds())\<close>, and the standard library defines
  \<^verbatim>\<open>
  func (d Duration) Seconds() float64 {
      sec := d / Second
      nsec := d % Second
      return float64(sec) + float64(nsec)/1e9
  }
  \<close>
  with \<^verbatim>\<open>Second = 1000000000\<close>. A finite float64 is modelled by the rational number it
  denotes, kept as a fraction \<open>(n, d)\<close> with \<open>0 < d\<close>. Each float64 operation is the
  exact operation followed by rounding to the nearest binary64 number, ties to even
  (53 significant bits, least exponent \<open>-1074\<close>). All numbers that occur here are far
  below the overflow threshold, so infinities and NaN are not modelled; neither is the
  sign of zero, which the conversion to \<^verbatim>\<open>int64\<close> ignores.
\<close>

type_synonym float64 = "int \<times> int"

text \<open>The integer nearest to \<open>n / d\<close> for \<open>0 \<le> n\<close> and \<open>0 < d\<close>, ties to even.\<close>

definition round_half_even :: "int \<Rightarrow> int \<Rightarrow> int" where
  "round_half_even n d =
     (let q = n div d; r = n mod d
      in if 2 * r < d then q else if d < 2 * r then q + 1 else if even q then q else q + 1)"

text \<open>\<open>p / q < 2 ^ k\<close> for an integer \<open>k\<close> of either sign.\<close>

definition frac_less_pow2 :: "int \<Rightarrow> int \<Rightarrow> int \<Rightarrow> bool" where
  "frac_less_pow2 p q k = (if 0 \<le> k then p < q * 2 ^ nat k else p * 2 ^ nat (- k) < q)"

text \<open>
  The exponent \<open>e\<close> of the unit in the last place of \<open>p / q\<close> (for \<open>0 < p\<close>, \<open>0 < q\<close>):
  \<open>2 ^ 52 \<le> (p / q) / 2 ^ e < 2 ^ 53\<close>, but never below \<open>-1074\<close> (subnormal numbers).
\<close>

definition float64_exponent :: "int \<Rightarrow> int \<Rightarrow> int" where
  "float64_exponent p q =
     (let e0 = bitlen p - bitlen q - 53;
          e = (if frac_less_pow2 p q (e0 + 53) then e0 else e0 + 1)
      in max e (- 1074))"

text \<open>Rounding the rational \<open>p / q\<close> (\<open>0 < q\<close>) to float64.\<close>

definition float64_round :: "int \<Rightarrow> int \<Rightarrow> float64" where
  "float64_round p q =
     (if p = 0 then (0, 1)
      else let e = float64_exponent \<bar>p\<bar> q
           in if 0 \<le> e then (sgn p * round_half_even \<bar>p\<bar> (q * 2 ^ nat e) * 2 ^ nat e, 1)
              else (sgn p * round_half_even (\<bar>p\<bar> * 2 ^ nat (- e)) q, 2 ^ nat (- e)))"

text \<open>The conversion \<^verbatim>\<open>float64(i)\<close> of an integer.\<close>

definition float64_of_int :: "int \<Rightarrow> float64" where
  "float64_of_int i = float64_round i 1"

text \<open>Division by a non-zero float64, and addition.\<close>

fun float64_div :: "float64 \<Rightarrow> float64 \<Rightarrow> float64" where
  "float64_div (a, b) (c, d) = float64_round (sgn c * a * d) (b * \<bar>c\<bar>)"

fun float64_add :: "float64 \<Rightarrow> float64 \<Rightarrow> float64" where
  "float64_add (a, b) (c, d) = float64_round (a * d + c * b) (b * d)"

text \<open>
  The conversion \<^verbatim>\<open>int64(f)\<close> discards the fraction (truncation towards zero). The
  values converted here are below \<open>2 ^ 63\<close> in magnitude.
\<close>

fun int64_of_float64 :: "float64 \<Rightarrow> int64" where
  "int64_of_float64 (a, b) = word_of_int (a sdiv b)"

text \<open>
  \<^verbatim>\<open>Duration.Seconds\<close>; a \<^verbatim>\<open>time.Duration\<close> is an \<^verbatim>\<open>int64\<close> count of nanoseconds,
  and Go's \<^verbatim>\<open>/\<close> and \<^verbatim>\<open>%\<close> on integers truncate towards zero.
\<close>

definition Seconds :: "int64 \<Rightarrow> float64" where
  "Seconds d =
     (let sec = sint d sdiv 1000000000; nsec = sint d smod 1000000000
      in float64_add (float64_of_int sec) (float64_div (float64_of_int nsec) (1000000000, 1)))"

subsection \<open>Values of type \<^verbatim>\<open>interface{}\<close>\<close>

text \<open>
  The cache stores values of any type. A stored value is modelled by what
  \<^verbatim>\<open>reflect\<close> shows of it: its kind and, for a container, the values that
  \<^verbatim>\<open>Index(i).Interface()\<close>, \<^verbatim>\<open>MapKeys()\<close>/\<^verbatim>\<open>MapIndex(key).Interface()\<close> and
  \<^verbatim>\<open>Field(i).Interface()\<close> return. A value of any other kind is a \<open>GScalar\<close> with
  its bit pattern. A field of a struct carries whether it is exported:
  \<^verbatim>\<open>Interface()\<close> panics on a value obtained from an unexported field.
\<close>

datatype scalar_kind =
    KBool | KInt | KInt8 | KInt16 | KInt32 | KInt64
  | KUint | KUint8 | KUint16 | KUint32 | KUint64 | KUintptr
  | KFloat32 | KFloat64 | KComplex64 | KComplex128
  | KChan | KFunc | KPointer | KUnsafePointer

datatype gval =
    GNil
  | GScalar scalar_kind nat
  | GString string
  | GSlice "gval list"
  | GArray "gval list"
  | GMap "(gval \<times> gval) list"
  | GStruct "(bool \<times> gval) list"

text \<open>
  \<^verbatim>\<open>reflect.TypeOf(i).Size()\<close> for the scalar kinds, on a 64-bit platform (where
  \<^verbatim>\<open>int\<close>, \<^verbatim>\<open>uint\<close>, \<^verbatim>\<open>uintptr\<close> and pointers take 8 bytes).
\<close>

fun kind_size :: "scalar_kind \<Rightarrow> int" where
  "kind_size KBool = 1"
| "kind_size KInt = 8"
| "kind_size KInt8 = 1"
| "kind_size KInt16 = 2"
| "kind_size KInt32 = 4"
| "kind_size KInt64 = 8"
| "kind_size KUint = 8"
| "kind_size KUint8 = 1"
| "kind_size KUint16 = 2"
| "kind_size KUint32 = 4"
| "kind_size KUint64 = 8"
| "kind_size KUintptr = 8"
| "kind_size KFloat32 = 4"
| "kind_size KFloat64 = 8"
| "kind_size KComplex64 = 8"
| "kind_size KComplex128 = 16"
| "kind_size KChan = 8"
| "kind_size KFunc = 8"
| "kind_size KPointer = 8"
| "kind_size KUnsafePointer = 8"

text \<open>
  \<^verbatim>\<open>size += isize(...)\<close>, where \<open>None\<close> stands for a panic of \<^verbatim>\<open>isize\<close>.
\<close>

fun add_size :: "int option \<Rightarrow> int option \<Rightarrow> int option" where
  "add_size (Some sz) (Some n) = Some (sz + n)"
| "add_size _ _ = None"

text \<open>
  A key of a Go map that is not equal to itself: a floating-point NaN, or a complex
  number, array or struct with a NaN in it. \<^verbatim>\<open>MapKeys()\<close> yields such a key, but
  \<^verbatim>\<open>MapIndex(key)\<close> does not find it and returns the zero \<^verbatim>\<open>Value\<close>, on which
  \<^verbatim>\<open>Interface()\<close> panics. The bit pattern of a \<^verbatim>\<open>float64\<close> is a NaN when its 11
  exponent bits are all set and its 52 fraction bits are not all zero (8 and 23 bits for
  a \<^verbatim>\<open>float32\<close>); the bit pattern of a complex number has its real part in the low
  half and its imaginary part in the high half.
\<close>

definition float64_is_NaN :: "nat \<Rightarrow> bool" where
  "float64_is_NaN bits \<longleftrightarrow> (bits div 2 ^ 52) mod 2 ^ 11 = 2047 \<and> bits mod 2 ^ 52 \<noteq> 0"

definition float32_is_NaN :: "nat \<Rightarrow> bool" where
  "float32_is_NaN bits \<longleftrightarrow> (bits div 2 ^ 23) mod 2 ^ 8 = 255 \<and> bits mod 2 ^ 23 \<noteq> 0"

fun has_NaN :: "gval \<Rightarrow> bool" where
  "has_NaN (GScalar k bits) =
     (if k = KFloat64 then float64_is_NaN bits
      else if k = KFloat32 then float32_is_NaN bits
      else if k = KComplex128 then
        float64_is_NaN (bits mod 2 ^ 64) \<or> float64_is_NaN (bits div 2 ^ 64)
      else if k = KComplex64 then
        float32_is_NaN (bits mod 2 ^ 32) \<or> float32_is_NaN (bits div 2 ^ 32)
      else False)"
| "has_NaN (GArray xs) = list_ex has_NaN xs"
| "has_NaN (GStruct fields) = list_ex (\<lambda>field. has_NaN (snd field)) fields"
| "has_NaN GNil = False"
| "has_NaN (GString s) = False"
| "has_NaN (GSlice xs) = False"
| "has_NaN (GMap kvs) = False"

text \<open>
  \<^verbatim>\<open>isize\<close>. The bytes of a string are values of kind \<^verbatim>\<open>Uint8\<close>, which take the
  default branch of the switch. The sizes are Go \<^verbatim>\<open>int\<close>s; they are modelled as
  unbounded integers, since a sum of \<open>2 ^ 63\<close> bytes is out of reach.
\<close>

fun isize :: "gval \<Rightarrow> int option" where
  "isize GNil = Some 0"
| "isize (GSlice xs) = fold (\<lambda>x sz. add_size sz (isize x)) xs (Some 0)"
| "isize (GArray xs) = fold (\<lambda>x sz. add_size sz (isize x)) xs (Some 0)"
| "isize (GString s) = fold (\<lambda>b sz. add_size sz (Some (kind_size KUint8))) s (Some 0)"
| "isize (GMap kvs) =
     fold (\<lambda>kv sz. add_size sz
             (add_size (isize (fst kv)) (if has_NaN (fst kv) then None else isize (snd kv))))
       kvs (Some 0)"
| "isize (GStruct fields) =
     fold (\<lambda>field sz. add_size sz (if fst field then isize (snd field) else None))
       fields (Some 0)"
| "isize (GScalar k bits) = Some (kind_size k)"

subsection \<open>The data model\<close>

type_synonym key = string

record Item =
  destroyTimestamp :: int64
  data :: gval

record Cache =
  storage :: "key \<rightharpoonup> Item"
  cleanupInterval :: int64

record KeyItemPair =
  Key :: key
  Item :: Item

datatype error = Error string

text \<open>
  \<^verbatim>\<open>Cacher\<close> returns the empty cache; the second component tells whether the
  goroutine \<^verbatim>\<open>gc\<close> was started.
\<close>

definition Cacher :: "int64 \<Rightarrow> Cache \<times> bool" where
  "Cacher interval = (\<lparr>storage = Map.empty, cleanupInterval = interval\<rparr>, 0 <s interval)"

subsection \<open>Operations on one key\<close>

definition Get :: "Cache \<Rightarrow> key \<Rightarrow> gval \<times> bool" where
  "Get c key =
     (case storage c key of
        None \<Rightarrow> (GNil, False)
      | Some item \<Rightarrow> (data item, True))"

definition Delete :: "Cache \<Rightarrow> key \<Rightarrow> error option \<times> Cache" where
  "Delete c key =
     (case storage c key of
        None \<Rightarrow> (Some (Error ''key not found''), c)
      | Some item \<Rightarrow> (None, c\<lparr>storage := (storage c)(key := None)\<rparr>))"

text \<open>\<open>now\<close> is the value of \<^verbatim>\<open>time.Now().Unix()\<close> read by the call.\<close>

definition Add :: "Cache \<Rightarrow> key \<Rightarrow> gval \<Rightarrow> int64 \<Rightarrow> int64 \<Rightarrow> Cache" where
  "Add c key dat ttl now =
     c\<lparr>storage := (storage c)(key \<mapsto>
         \<lparr>destroyTimestamp = now + int64_of_float64 (Seconds ttl), data = dat\<rparr>)\<rparr>"

definition Count :: "Cache \<Rightarrow> int" where
  "Count c = int (card (dom (storage c)))"

subsection \<open>Operations that range over the map\<close>

text \<open>
  A \<^verbatim>\<open>range\<close> over a Go map yields every entry once, in an order that is not
  specified; an entry removed before the loop reaches it is not yielded. The order is
  an argument of the model: a list \<open>ks\<close> of keys with \<open>ranges ks m\<close>.
\<close>

definition ranges :: "key list \<Rightarrow> (key \<rightharpoonup> Item) \<Rightarrow> bool" where
  "ranges ks m \<longleftrightarrow> distinct ks \<and> set ks = dom m"

text \<open>
  \<^verbatim>\<open>Cleanup\<close> reads the clock anew for each entry: the loop is given the keys in
  the order of the \<^verbatim>\<open>range\<close>, each with the value of \<^verbatim>\<open>time.Now().Unix()\<close> in its
  iteration. The comparison of two \<^verbatim>\<open>int64\<close> is signed.
\<close>

fun Cleanup_range :: "(key \<times> int64) list \<Rightarrow> (key \<rightharpoonup> Item) \<Rightarrow> (key \<rightharpoonup> Item)" where
  "Cleanup_range [] m = m"
| "Cleanup_range ((key, now) # rest) m =
     (case m key of
        None \<Rightarrow> Cleanup_range rest m
      | Some item \<Rightarrow>
          if destroyTimestamp item \<le>s now then Cleanup_range rest (m(key := None))
          else Cleanup_range rest m)"

definition Cleanup :: "Cache \<Rightarrow> (key \<times> int64) list \<Rightarrow> Cache" where
  "Cleanup c visits = c\<lparr>storage := Cleanup_range visits (storage c)\<rparr>"

fun Flush_range :: "key list \<Rightarrow> (key \<rightharpoonup> Item) \<Rightarrow> (key \<rightharpoonup> Item)" where
  "Flush_range [] m = m"
| "Flush_range (key # rest) m = Flush_range rest (m(key := None))"

definition Flush :: "Cache \<Rightarrow> key list \<Rightarrow> Cache" where
  "Flush c ks = c\<lparr>storage := Flush_range ks (storage c)\<rparr>"

fun List_range :: "key list \<Rightarrow> (key \<rightharpoonup> Item) \<Rightarrow> KeyItemPair list \<Rightarrow> KeyItemPair list" where
  "List_range [] m items = items"
| "List_range (key # rest) m items =
     (case m key of
        None \<Rightarrow> List_range rest m items
      | Some item \<Rightarrow> List_range rest m (items @ [\<lparr>Key = key, Item = item\<rparr>]))"

definition List :: "Cache \<Rightarrow> key list \<Rightarrow> KeyItemPair list" where
  "List c ks = List_range ks (storage c) []"

text \<open>
  \<^verbatim>\<open>Size\<close>: for each entry, \<^verbatim>\<open>isize(key) + isize(item.data) + isize(item.destroyTimestamp)\<close>.
\<close>

definition entry_size :: "key \<Rightarrow> Item \<Rightarrow> int option" where
  "entry_size key item =
     add_size (add_size (isize (GString key)) (isize (data item)))
       (isize (GScalar KInt64 (unat (destroyTimestamp item))))"

fun Size_range :: "key list \<Rightarrow> (key \<rightharpoonup> Item) \<Rightarrow> int option \<Rightarrow> int option" where
  "Size_range [] m sz = sz"
| "Size_range (key # rest) m sz =
     (case m key of
        None \<Rightarrow> Size_range rest m sz
      | Some item \<Rightarrow> Size_range rest m (add_size sz (entry_size key item)))"

definition Size :: "Cache \<Rightarrow> key list \<Rightarrow> int option" where
  "Size c ks = Size_range ks (storage c) (Some 0)"

subsection \<open>Calls, and the goroutine \<^verbatim>\<open>gc\<close>\<close>

text \<open>A call of one of the methods of the source file, with what it reads from outside.\<close>

datatype call =
    CallCleanup "(key \<times> int64) list"
  | CallFlush "key list"
  | CallGet key
  | CallDelete key
  | CallAdd key gval int64 int64
  | CallCount
  | CallList "key list"
  | CallSize "key list"

fun exec :: "call \<Rightarrow> Cache \<Rightarrow> Cache" where
  "exec (CallCleanup visits) c = Cleanup c visits"
| "exec (CallFlush ks) c = Flush c ks"
| "exec (CallGet key) c = c"
| "exec (CallDelete key) c = snd (Delete c key)"
| "exec (CallAdd key dat ttl now) c = Add c key dat ttl now"
| "exec CallCount c = c"
| "exec (CallList ks) c = c"
| "exec (CallSize ks) c = c"

text \<open>
  \<^verbatim>\<open>gc\<close> receives from the channel of a ticker, which is never closed
  (\<^verbatim>\<open>Ticker.Stop\<close> does not close it, and here it is only called when \<^verbatim>\<open>gc\<close>
  returns). The ticks are therefore an infinite stream. Each tick comes with the calls
  that other goroutines made on the cache since the tick before, and with what the
  sweep of this tick reads. The loop may not return: the result \<open>None\<close> says so.
\<close>

partial_function (option) gc :: "Cache \<Rightarrow> (call list \<times> (key \<times> int64) list) stream \<Rightarrow> Cache option" where
  "gc c ticks = gc (Cleanup (fold exec (fst (shd ticks)) c) (snd (shd ticks))) (stl ticks)"

subsection \<open>Snapshots\<close>

text \<open>
  Modelled from the spec: \<^verbatim>\<open>Save\<close> and \<^verbatim>\<open>Load\<close> (section 4.3 of the specification)
  are not in the source files. \<open>Save\<close> encodes every \<open>(key, value, expiresAt)\<close>
  triple and writes the result to the sink; it fails with \<open>EncodingError\<close> if a stored
  value cannot be represented and with \<open>IOError\<close> if the sink rejects the write, and
  it does not change the store. \<open>Load\<close> decodes the source into a candidate mapping
  and, on success only, replaces the whole mapping of the store by it; it fails with
  \<open>IOError\<close> if the source cannot be read and with \<open>DecodingError\<close> if it is
  malformed. The format is a sequence of records; the encoding of a value is the
  pluggable serializer, a pair of functions \<open>enc\<close> and \<open>dec\<close>.
\<close>

datatype snapshot_error = EncodingError | DecodingError | IOError

type_synonym bytes = "8 word list"

type_synonym dump = "(key \<times> bytes \<times> int64) list"

fun Save_range :: "(gval \<Rightarrow> bytes option) \<Rightarrow> key list \<Rightarrow> (key \<rightharpoonup> Item) \<Rightarrow> dump option" where
  "Save_range enc [] m = Some []"
| "Save_range enc (key # rest) m =
     (case m key of
        None \<Rightarrow> Save_range enc rest m
      | Some item \<Rightarrow>
          (case enc (data item) of
             None \<Rightarrow> None
           | Some b \<Rightarrow> map_option ((#) (key, b, destroyTimestamp item)) (Save_range enc rest m)))"

definition Save :: "Cache \<Rightarrow> (gval \<Rightarrow> bytes option) \<Rightarrow> key list \<Rightarrow> bool \<Rightarrow> snapshot_error + dump" where
  "Save c enc ks sink_accepts =
     (case Save_range enc ks (storage c) of
        None \<Rightarrow> Inl EncodingError
      | Some d \<Rightarrow> if sink_accepts then Inr d else Inl IOError)"

fun Load_decode :: "(bytes \<Rightarrow> gval option) \<Rightarrow> dump \<Rightarrow> (key \<rightharpoonup> Item) \<Rightarrow> (key \<rightharpoonup> Item) option" where
  "Load_decode dec [] m = Some m"
| "Load_decode dec ((key, b, expiresAt) # rest) m =
     (case dec b of
        None \<Rightarrow> None
      | Some v \<Rightarrow> Load_decode dec rest (m(key \<mapsto> \<lparr>destroyTimestamp = expiresAt, data = v\<rparr>)))"

definition Load :: "Cache \<Rightarrow> (bytes \<Rightarrow> gval option) \<Rightarrow> dump option \<Rightarrow> snapshot_error option \<times> Cache" where
  "Load c dec source =
     (case source of
        None \<Rightarrow> (Some IOError, c)
      | Some d \<Rightarrow>
          (case Load_decode dec d Map.empty of
             None \<Rightarrow> (Some DecodingError, c)
           | Some m \<Rightarrow> (None, c\<lparr>storage := m\<rparr>)))"

section \<open>Properties\<close>

subsection \<open>Get, Delete and Add\<close>

lemma Get_Add: "Get (Add c k v ttl now) k = (v, True)"
  by (simp add: Get_def Add_def)

text \<open>
  Claim C1. \<open>Add(k, v, ttl)\<close> followed by \<open>Get(k)\<close> returns \<open>(v, true)\<close> for every
  \<open>ttl\<close>, of either sign, and for every clock reading. \<open>Get\<close> returns the stored
  value and \<open>true\<close> whenever the key is in the map, whatever the entry's
  \<open>destroyTimestamp\<close> (the function does not read the clock), and it returns
  \<open>(nil, false)\<close> exactly when the key is absent.
\<close>

theorem get_returns_stored_value:
  "Get (Add c k v ttl now) k = (v, True) \<and>
   (\<forall>item. storage c k = Some item \<longrightarrow> Get c k = (data item, True)) \<and>
   (storage c k = None \<longrightarrow> Get c k = (GNil, False)) \<and>
   (snd (Get c k) = False \<longleftrightarrow> storage c k = None)"
  by (simp add: Get_Add) (simp add: Get_def split: option.split)

theorem get_returns_stored_value_witness:
  "Get (Add (fst (Cacher (- 1))) ''k'' (GScalar KInt 2) (- 1000000000) 100) ''k'' = (GScalar KInt 2, True) \<and>
   Get \<lparr>storage = [''old'' \<mapsto> \<lparr>destroyTimestamp = 5, data = GString ''v''\<rparr>], cleanupInterval = - 1\<rparr> ''old''
     = (GString ''v'', True) \<and>
   Get (fst (Cacher (- 1))) ''k'' = (GNil, False) \<and>
   snd (Get (fst (Cacher (- 1))) ''k'') = False"
  using get_returns_stored_value [of "fst (Cacher (- 1))" "''k''" "GScalar KInt 2" "- 1000000000" 100]
    get_returns_stored_value
      [of "\<lparr>storage = [''old'' \<mapsto> \<lparr>destroyTimestamp = 5, data = GString ''v''\<rparr>], cleanupInterval = - 1\<rparr>" "''old''"]
  by (simp add: Cacher_def)

text \<open>
  Claim C4. \<open>Delete(k)\<close> for a key that is not in the map returns the error
  \<open>key not found\<close> and leaves the cache as it was: every entry is still there with its
  value and \<open>destroyTimestamp\<close>, and \<open>Count()\<close> is the same.
\<close>

theorem delete_absent_key:
  assumes "storage c k = None"
  shows "fst (Delete c k) = Some (Error ''key not found'') \<and>
         snd (Delete c k) = c \<and>
         (\<forall>k'. storage (snd (Delete c k)) k' = storage c k') \<and>
         Count (snd (Delete c k)) = Count c"
  using assms by (simp add: Delete_def)

theorem delete_absent_key_witness:
  "storage \<lparr>storage = [''a'' \<mapsto> \<lparr>destroyTimestamp = 5, data = GString ''v''\<rparr>], cleanupInterval = - 1\<rparr> ''b'' = None \<and>
   Delete \<lparr>storage = [''a'' \<mapsto> \<lparr>destroyTimestamp = 5, data = GString ''v''\<rparr>], cleanupInterval = - 1\<rparr> ''b'' =
     (Some (Error ''key not found''),
      \<lparr>storage = [''a'' \<mapsto> \<lparr>destroyTimestamp = 5, data = GString ''v''\<rparr>], cleanupInterval = - 1\<rparr>) \<and>
   Count (snd (Delete \<lparr>storage = [''a'' \<mapsto> \<lparr>destroyTimestamp = 5, data = GString ''v''\<rparr>], cleanupInterval = - 1\<rparr> ''b'')) = 1"
proof -
  let ?c = "\<lparr>storage = [''a'' \<mapsto> \<lparr>destroyTimestamp = 5, data = GString ''v''\<rparr>], cleanupInterval = - 1\<rparr>"
  have absent: "storage ?c ''b'' = None" by simp
  have "Count ?c = 1" by (simp add: Count_def)
  with absent delete_absent_key [OF absent] show ?thesis
    by (simp add: prod_eq_iff)
qed

text \<open>
  Claim C9. \<open>Add(k, v, ttl)\<close> changes the binding of \<open>k\<close> only, and a successful
  \<open>Delete(k)\<close> (one for a key that is in the map) removes the entry of \<open>k\<close> only: in
  both cases the entry of every other key, and the cleanup interval, are as before.
\<close>

theorem delete_and_add_frame:
  "(\<forall>k'. k' \<noteq> k \<longrightarrow> storage (Add c k v ttl now) k' = storage c k') \<and>
   cleanupInterval (Add c k v ttl now) = cleanupInterval c \<and>
   (\<forall>item. storage c k = Some item \<longrightarrow>
      fst (Delete c k) = None \<and>
      storage (snd (Delete c k)) k = None \<and>
      (\<forall>k'. k' \<noteq> k \<longrightarrow> storage (snd (Delete c k)) k' = storage c k') \<and>
      cleanupInterval (snd (Delete c k)) = cleanupInterval c)"
  by (simp add: Add_def Delete_def)

theorem delete_and_add_frame_witness:
  "storage (Add \<lparr>storage = [''a'' \<mapsto> \<lparr>destroyTimestamp = 5, data = GString ''v''\<rparr>], cleanupInterval = 7\<rparr>
      ''b'' (GScalar KBool 1) 0 9) ''a'' = Some \<lparr>destroyTimestamp = 5, data = GString ''v''\<rparr> \<and>
   fst (Delete \<lparr>storage = [''a'' \<mapsto> \<lparr>destroyTimestamp = 5, data = GString ''v''\<rparr>,
                             ''b'' \<mapsto> \<lparr>destroyTimestamp = 6, data = GNil\<rparr>], cleanupInterval = 7\<rparr> ''a'') = None \<and>
   storage (snd (Delete \<lparr>storage = [''a'' \<mapsto> \<lparr>destroyTimestamp = 5, data = GString ''v''\<rparr>,
                             ''b'' \<mapsto> \<lparr>destroyTimestamp = 6, data = GNil\<rparr>], cleanupInterval = 7\<rparr> ''a'')) ''a'' = None \<and>
   storage (snd (Delete \<lparr>storage = [''a'' \<mapsto> \<lparr>destroyTimestamp = 5, data = GString ''v''\<rparr>,
                             ''b'' \<mapsto> \<lparr>destroyTimestamp = 6, data = GNil\<rparr>], cleanupInterval = 7\<rparr> ''a'')) ''b''
     = Some \<lparr>destroyTimestamp = 6, data = GNil\<rparr>"
  using delete_and_add_frame
      [of "''b''" "\<lparr>storage = [''a'' \<mapsto> \<lparr>destroyTimestamp = 5, data = GString ''v''\<rparr>], cleanupInterval = 7\<rparr>"
          "GScalar KBool 1" 0 9]
    delete_and_add_frame
      [of "''a''" "\<lparr>storage = [''a'' \<mapsto> \<lparr>destroyTimestamp = 5, data = GString ''v''\<rparr>,
                             ''b'' \<mapsto> \<lparr>destroyTimestamp = 6, data = GNil\<rparr>], cleanupInterval = 7\<rparr>"]
  by simp

subsection \<open>Cleanup\<close>

lemma Cleanup_range_None: "m k = None \<Longrightarrow> Cleanup_range vs m k = None"
proof (induction vs arbitrary: m)
  case Nil
  then show ?case by simp
next
  case (Cons v vs)
  obtain key now where v: "v = (key, now)" by (cases v)
  from Cons.prems show ?case
    unfolding v by (simp add: Cons.IH split: option.split)
qed

lemma Cleanup_range_cases: "Cleanup_range vs m k = None \<or> Cleanup_range vs m k = m k"
proof (induction vs arbitrary: m)
  case Nil
  show ?case by simp
next
  case (Cons v vs)
  obtain key now where v: "v = (key, now)" by (cases v)
  have upd: "Cleanup_range vs (m(key := None)) k = None \<or> Cleanup_range vs (m(key := None)) k = m k"
  proof (cases "k = key")
    case True
    then show ?thesis by (simp add: Cleanup_range_None)
  next
    case False
    have "Cleanup_range vs (m(key := None)) k = None \<or>
        Cleanup_range vs (m(key := None)) k = (m(key := None)) k"
      by (rule Cons.IH)
    with False show ?thesis by simp
  qed
  have "Cleanup_range vs m k = None \<or> Cleanup_range vs m k = m k"
    by (rule Cons.IH)
  with upd show ?case
    unfolding v by (simp split: option.split)
qed

lemma Cleanup_range_unvisited: "k \<notin> fst ` set vs \<Longrightarrow> Cleanup_range vs m k = m k"
proof (induction vs arbitrary: m)
  case Nil
  show ?case by simp
next
  case (Cons v vs)
  obtain key now where v: "v = (key, now)" by (cases v)
  from Cons.prems have "k \<noteq> key" and "k \<notin> fst ` set vs"
    by (auto simp: v)
  then show ?case
    unfolding v by (simp add: Cons.IH split: option.split)
qed

text \<open>
  What the sweep does to an entry depends on the clock reading of the iteration that
  reaches it.
\<close>

lemma Cleanup_range_visited:
  assumes "distinct (map fst vs)" and "(k, t) \<in> set vs" and "m k = Some item"
  shows "Cleanup_range vs m k = (if destroyTimestamp item \<le>s t then None else Some item)"
  using assms
proof (induction vs arbitrary: m)
  case Nil
  then show ?case by simp
next
  case (Cons v vs)
  obtain key now where v: "v = (key, now)" by (cases v)
  show ?case
  proof (cases "key = k")
    case True
    with Cons.prems have "now = t" and "k \<notin> fst ` set vs"
      by (auto simp: v image_iff)
    with True Cons.prems show ?thesis
      unfolding v by (simp add: Cleanup_range_unvisited Cleanup_range_None)
  next
    case False
    with Cons.prems have "distinct (map fst vs)" and "(k, t) \<in> set vs"
      by (auto simp: v)
    with False Cons.prems(3) show ?thesis
      unfolding v by (simp add: Cons.IH split: option.split)
  qed
qed

lemma Cleanup_range_fixed:
  assumes "\<forall>(k, t) \<in> set vs. \<forall>item. m k = Some item \<longrightarrow> \<not> destroyTimestamp item \<le>s t"
  shows "Cleanup_range vs m = m"
  using assms
proof (induction vs)
  case Nil
  show ?case by simp
next
  case (Cons v vs)
  obtain key now where v: "v = (key, now)" by (cases v)
  from Cons show ?case
    unfolding v by (simp split: option.split)
qed

text \<open>
  Claim C2. \<open>Cleanup()\<close> removes exactly the entries with \<open>destroyTimestamp \<le> now\<close>
  and no others, where \<open>now\<close> is the clock reading at the moment the sweep looks at the
  entry (the source reads the clock once per entry): afterwards such an entry is absent,
  an entry with \<open>destroyTimestamp > now\<close> is present and unchanged, and no key has been
  added. In particular, when the clock shows one second \<open>now\<close> during the sweep, the
  entries removed are exactly those with \<open>destroyTimestamp \<le> now\<close>. This holds for
  every order in which the \<^verbatim>\<open>range\<close> yields the entries.
\<close>

theorem cleanup_removes_exactly_expired:
  assumes "ranges (map fst visits) (storage c)"
  shows "storage (Cleanup c visits) k =
           (case storage c k of
              None \<Rightarrow> None
            | Some item \<Rightarrow>
                if \<exists>t. (k, t) \<in> set visits \<and> destroyTimestamp item \<le>s t then None else Some item) \<and>
         (snd ` set visits \<subseteq> {now} \<longrightarrow>
            storage (Cleanup c visits) k =
              (case storage c k of
                 None \<Rightarrow> None
               | Some item \<Rightarrow> if destroyTimestamp item \<le>s now then None else Some item))"
proof (cases "storage c k")
  case None
  then show ?thesis
    by (simp add: Cleanup_def Cleanup_range_None)
next
  case (Some item)
  from assms have d: "distinct (map fst visits)"
    by (simp add: ranges_def)
  from assms Some have "k \<in> fst ` set visits"
    by (auto simp: ranges_def)
  then obtain t where t: "(k, t) \<in> set visits"
    by auto
  with d have only: "t' = t" if "(k, t') \<in> set visits" for t'
    using that by (meson eq_key_imp_eq_value)
  from d t Some have "Cleanup_range visits (storage c) k =
      (if destroyTimestamp item \<le>s t then None else Some item)"
    by (intro Cleanup_range_visited)
  moreover from t only
  have "(\<exists>t'. (k, t') \<in> set visits \<and> destroyTimestamp item \<le>s t') \<longleftrightarrow> destroyTimestamp item \<le>s t"
    by blast
  moreover from t have "t = now" if "snd ` set visits \<subseteq> {now}"
    using that by force
  ultimately show ?thesis
    using Some by (auto simp: Cleanup_def)
qed

theorem cleanup_removes_exactly_expired_witness:
  "ranges (map fst [(''b'', 100 :: int64), (''a'', 100)])
     [''a'' \<mapsto> \<lparr>destroyTimestamp = 99, data = GScalar KInt 1\<rparr>,
      ''b'' \<mapsto> \<lparr>destroyTimestamp = 160, data = GScalar KInt 2\<rparr>] \<and>
   snd ` set [(''b'', 100 :: int64), (''a'', 100)] \<subseteq> {100} \<and>
   storage (Cleanup \<lparr>storage = [''a'' \<mapsto> \<lparr>destroyTimestamp = 99, data = GScalar KInt 1\<rparr>,
                                ''b'' \<mapsto> \<lparr>destroyTimestamp = 160, data = GScalar KInt 2\<rparr>],
                      cleanupInterval = - 1\<rparr> [(''b'', 100), (''a'', 100)]) ''a'' = None \<and>
   storage (Cleanup \<lparr>storage = [''a'' \<mapsto> \<lparr>destroyTimestamp = 99, data = GScalar KInt 1\<rparr>,
                                ''b'' \<mapsto> \<lparr>destroyTimestamp = 160, data = GScalar KInt 2\<rparr>],
                      cleanupInterval = - 1\<rparr> [(''b'', 100), (''a'', 100)]) ''b''
     = Some \<lparr>destroyTimestamp = 160, data = GScalar KInt 2\<rparr>"
proof -
  let ?c = "\<lparr>storage = [''a'' \<mapsto> \<lparr>destroyTimestamp = 99, data = GScalar KInt 1\<rparr>,
                          ''b'' \<mapsto> \<lparr>destroyTimestamp = 160, data = GScalar KInt 2\<rparr>],
                cleanupInterval = - 1\<rparr>"
  let ?vs = "[(''b'', 100 :: int64), (''a'', 100)]"
  have r: "ranges (map fst ?vs) (storage ?c)"
    by (auto simp: ranges_def)
  have clock: "snd ` set ?vs \<subseteq> {100}"
    by simp
  have le: "(99 :: int64) \<le>s 100" "\<not> (160 :: int64) \<le>s 100"
    by (simp_all add: word_sle_eq)
  from cleanup_removes_exactly_expired [OF r, of "''a''" 100] clock
  have "storage (Cleanup ?c ?vs) ''a'' =
      (case storage ?c ''a'' of None \<Rightarrow> None
       | Some item \<Rightarrow> if destroyTimestamp item \<le>s 100 then None else Some item)"
    by blast
  moreover from cleanup_removes_exactly_expired [OF r, of "''b''" 100] clock
  have "storage (Cleanup ?c ?vs) ''b'' =
      (case storage ?c ''b'' of None \<Rightarrow> None
       | Some item \<Rightarrow> if destroyTimestamp item \<le>s 100 then None else Some item)"
    by blast
  ultimately show ?thesis
    using r clock le by simp
qed

lemma word_sle_trans_not:
  "\<not> (x :: int64) \<le>s t1 \<Longrightarrow> t2 \<le>s t1 \<Longrightarrow> \<not> x \<le>s t2"
  by (simp add: word_sle_eq)

text \<open>
  Claim C6 says that a second \<open>Cleanup()\<close>, with no insertion in between, removes
  nothing. Each call reads the clock anew, so this fails when the clock advances between
  the two calls: an entry with \<open>destroyTimestamp = 5\<close> survives a sweep at second 4 and
  is removed by a sweep at second 5.
\<close>

theorem cleanup_twice_across_a_tick:
  "Cleanup (Cleanup \<lparr>storage = [''a'' \<mapsto> \<lparr>destroyTimestamp = 5, data = GNil\<rparr>], cleanupInterval = - 1\<rparr>
              [(''a'', 4)]) [(''a'', 5)]
   \<noteq> Cleanup \<lparr>storage = [''a'' \<mapsto> \<lparr>destroyTimestamp = 5, data = GNil\<rparr>], cleanupInterval = - 1\<rparr>
              [(''a'', 4)]"
proof -
  have "\<not> (5 :: int64) \<le>s 4" and "(5 :: int64) \<le>s 5"
    by (simp_all add: word_sle_eq)
  then show ?thesis
    by (simp add: Cleanup_def fun_eq_iff)
qed

text \<open>
  Claim C6, amended. If no clock reading of the second sweep is later than a reading of
  the first sweep (in particular if the clock shows the same second during both), the
  second \<open>Cleanup()\<close> removes nothing: the cache is as the first call left it.
\<close>

theorem cleanup_twice_same_clock:
  assumes "ranges (map fst vs1) (storage c)"
    and "\<forall>t2 \<in> snd ` set vs2. \<forall>t1 \<in> snd ` set vs1. t2 \<le>s t1"
  shows "Cleanup (Cleanup c vs1) vs2 = Cleanup c vs1"
proof -
  let ?m = "Cleanup_range vs1 (storage c)"
  have "\<forall>(k, t) \<in> set vs2. \<forall>item. ?m k = Some item \<longrightarrow> \<not> destroyTimestamp item \<le>s t"
  proof (intro ballI, clarify)
    fix k t2 item
    assume v2: "(k, t2) \<in> set vs2" and kept: "?m k = Some item"
      and expired: "destroyTimestamp item \<le>s t2"
    from kept Cleanup_range_cases [of vs1 "storage c" k] have present: "storage c k = Some item"
      by auto
    with assms(1) have "k \<in> fst ` set vs1"
      by (auto simp: ranges_def)
    then obtain t1 where v1: "(k, t1) \<in> set vs1"
      by auto
    from assms(1) have "distinct (map fst vs1)"
      by (simp add: ranges_def)
    then have "Cleanup_range vs1 (storage c) k =
        (if destroyTimestamp item \<le>s t1 then None else Some item)"
      using v1 present by (intro Cleanup_range_visited)
    with kept have "\<not> destroyTimestamp item \<le>s t1"
      by (simp split: if_splits)
    moreover from assms(2) v1 v2 have "t2 \<le>s t1"
      by force
    ultimately have "\<not> destroyTimestamp item \<le>s t2"
      by (rule word_sle_trans_not)
    with expired show False by simp
  qed
  then have "Cleanup_range vs2 ?m = ?m"
    by (rule Cleanup_range_fixed)
  then show ?thesis
    by (simp add: Cleanup_def)
qed

theorem cleanup_twice_same_clock_witness:
  "ranges (map fst [(''a'', 4 :: int64), (''b'', 4)])
     (storage \<lparr>storage = [''a'' \<mapsto> \<lparr>destroyTimestamp = 5, data = GNil\<rparr>,
                           ''b'' \<mapsto> \<lparr>destroyTimestamp = 3, data = GNil\<rparr>], cleanupInterval = - 1\<rparr>) \<and>
   Cleanup (Cleanup \<lparr>storage = [''a'' \<mapsto> \<lparr>destroyTimestamp = 5, data = GNil\<rparr>,
                                  ''b'' \<mapsto> \<lparr>destroyTimestamp = 3, data = GNil\<rparr>], cleanupInterval = - 1\<rparr>
              [(''a'', 4), (''b'', 4)]) [(''a'', 4)]
   = Cleanup \<lparr>storage = [''a'' \<mapsto> \<lparr>destroyTimestamp = 5, data = GNil\<rparr>,
                           ''b'' \<mapsto> \<lparr>destroyTimestamp = 3, data = GNil\<rparr>], cleanupInterval = - 1\<rparr>
              [(''a'', 4), (''b'', 4)] \<and>
   storage (Cleanup \<lparr>storage = [''a'' \<mapsto> \<lparr>destroyTimestamp = 5, data = GNil\<rparr>,
                                  ''b'' \<mapsto> \<lparr>destroyTimestamp = 3, data = GNil\<rparr>], cleanupInterval = - 1\<rparr>
              [(''a'', 4), (''b'', 4)]) ''a'' = Some \<lparr>destroyTimestamp = 5, data = GNil\<rparr>"
proof -
  let ?c = "\<lparr>storage = [''a'' \<mapsto> \<lparr>destroyTimestamp = 5, data = GNil\<rparr>,
                          ''b'' \<mapsto> \<lparr>destroyTimestamp = 3, data = GNil\<rparr>], cleanupInterval = - 1\<rparr>"
  have r: "ranges (map fst [(''a'', 4 :: int64), (''b'', 4)]) (storage ?c)"
    by (auto simp: ranges_def)
  have le: "\<forall>t2 \<in> snd ` set [(''a'', 4 :: int64)]. \<forall>t1 \<in> snd ` set [(''a'', 4 :: int64), (''b'', 4)]. t2 \<le>s t1"
    by (simp add: word_sle_eq)
  have kept: "\<not> (5 :: int64) \<le>s 4" "(3 :: int64) \<le>s 4"
    by (simp_all add: word_sle_eq)
  then have "storage (Cleanup ?c [(''a'', 4), (''b'', 4)]) ''a'' = Some \<lparr>destroyTimestamp = 5, data = GNil\<rparr>"
    by (simp add: Cleanup_def)
  with r cleanup_twice_same_clock [OF r le] show ?thesis
    by simp
qed

subsection \<open>The goroutine gc\<close>

lemma gc_not_Some: "gc c ticks \<noteq> Some c'"
proof
  assume "gc c ticks = Some c'"
  then show False
    by (rule gc.raw_induct [rotated, where P = "\<lambda>_ _ _. False"]) blast
qed

text \<open>
  Claim C7, amended. The source has no stop signal for the eviction task. The loop of
  \<open>gc\<close> never returns, whatever the state of the cache, whatever the clock shows and
  whatever calls are made on the cache between the ticks; the deferred
  \<^verbatim>\<open>ticker.Stop()\<close> is never reached.
\<close>

theorem gc_never_returns: "gc c ticks = None"
  using gc_not_Some [of c ticks] by (cases "gc c ticks") auto

text \<open>
  Claim C7 says that a stop signal exists for the eviction task. A cache constructed
  with a cadence of one second starts \<open>gc\<close>, and calls of \<open>Add\<close>, \<open>Delete\<close>,
  \<open>Flush\<close> and \<open>Cleanup\<close> between the ticks do not make it return.
\<close>

theorem gc_ignores_every_call:
  "snd (Cacher 1000000000) \<and>
   gc (fst (Cacher 1000000000))
      (sconst ([CallAdd ''a'' GNil 0 0, CallDelete ''a'', CallFlush [], CallCleanup []], [])) = None"
proof -
  have "(0 :: int64) <s 1000000000"
    by (simp add: word_sless_alt)
  moreover have "gc c ticks = None" for c ticks
    using gc_not_Some [of c ticks] by (cases "gc c ticks") auto
  ultimately show ?thesis
    by (simp add: Cacher_def)
qed

subsection \<open>Size\<close>

lemma fold_add_size:
  assumes "list_all2 (\<lambda>x n. f x = Some n) xs ns"
  shows "fold (\<lambda>x sz. add_size sz (f x)) xs (Some a) = Some (a + sum_list ns)"
  using assms
proof (induction xs ns arbitrary: a rule: list_all2_induct)
  case Nil
  show ?case by simp
next
  case (Cons x xs n ns)
  then show ?case by (simp add: add.assoc)
qed

lemma isize_String: "isize (GString s) = Some (int (length s))"
proof -
  have "list_all2 (\<lambda>b n. Some (kind_size KUint8) = Some n) s (map (\<lambda>b. 1) s)"
    by (simp add: list_all2_conv_all_nth)
  from fold_add_size [OF this, of 0] show ?thesis
    by (simp add: sum_list_triv)
qed

lemma isize_Slice:
  "list_all2 (\<lambda>x n. isize x = Some n) xs ns \<Longrightarrow> isize (GSlice xs) = Some (sum_list ns)"
  using fold_add_size [of isize xs ns 0] by simp

lemma isize_Array:
  "list_all2 (\<lambda>x n. isize x = Some n) xs ns \<Longrightarrow> isize (GArray xs) = Some (sum_list ns)"
  using fold_add_size [of isize xs ns 0] by simp

lemma fold_add_size_None: "fold (\<lambda>x sz. add_size sz (f x)) xs None = None"
  by (induction xs) simp_all

text \<open>A map with a key that is not equal to itself makes \<open>isize\<close> panic.\<close>

lemma isize_Map_NaN_key:
  assumes "(k, v) \<in> set kvs" and "has_NaN k"
  shows "isize (GMap kvs) = None"
proof -
  have "fold (\<lambda>kv sz. add_size sz
      (add_size (isize (fst kv)) (if has_NaN (fst kv) then None else isize (snd kv)))) kvs a = None"
    for a
    using assms(1)
  proof (induction kvs arbitrary: a)
    case Nil
    then show ?case by simp
  next
    case (Cons kv kvs)
    show ?case
    proof (cases "kv = (k, v)")
      case True
      have "add_size (isize k) None = None"
        by (cases "isize k") simp_all
      moreover have "add_size a None = None"
        by (cases a) simp_all
      ultimately show ?thesis
        using True assms(2) by (simp add: fold_add_size_None)
    next
      case False
      with Cons.prems have "(k, v) \<in> set kvs" by simp
      then show ?thesis by (simp add: Cons.IH)
    qed
  qed
  then show ?thesis by simp
qed

lemma isize_Map_NaN_example:
  "isize (GMap [(GScalar KFloat64 4607182418800017408, GScalar KInt 1),
                (GScalar KFloat64 9221120237041090560, GScalar KInt 2)]) = None"
proof -
  have "has_NaN (GScalar KFloat64 9221120237041090560)"
    by (simp add: float64_is_NaN_def)
  then show ?thesis
    by (intro isize_Map_NaN_key [where k = "GScalar KFloat64 9221120237041090560"
          and v = "GScalar KInt 2"]) simp_all
qed

lemma isize_Map:
  "list_all2 (\<lambda>kv n. \<not> has_NaN (fst kv) \<and>
       (\<exists>a b. isize (fst kv) = Some a \<and> isize (snd kv) = Some b \<and> n = a + b)) kvs ns
   \<Longrightarrow> isize (GMap kvs) = Some (sum_list ns)"
proof -
  assume "list_all2 (\<lambda>kv n. \<not> has_NaN (fst kv) \<and>
       (\<exists>a b. isize (fst kv) = Some a \<and> isize (snd kv) = Some b \<and> n = a + b)) kvs ns"
  then have "list_all2 (\<lambda>kv n. add_size (isize (fst kv))
       (if has_NaN (fst kv) then None else isize (snd kv)) = Some n) kvs ns"
    by (rule list_all2_mono) auto
  from fold_add_size [OF this, of 0] show ?thesis by simp
qed

lemma entry_size_eq:
  "entry_size key item = map_option (\<lambda>d. int (length key) + d + 8) (isize (data item))"
proof -
  have "isize (GScalar KInt64 (unat (destroyTimestamp item))) = Some 8"
    by simp
  then show ?thesis
    by (cases "isize (data item)") (simp_all add: entry_size_def isize_String del: isize.simps)
qed

lemma Size_range_sum:
  assumes "\<forall>k \<in> set ks. \<exists>item. m k = Some item \<and> isize (data item) = Some (sz k)"
  shows "Size_range ks m (Some a) = Some (a + (\<Sum>k\<leftarrow>ks. int (length k) + sz k + 8))"
  using assms
proof (induction ks arbitrary: a)
  case Nil
  show ?case by simp
next
  case (Cons key ks)
  from Cons.prems obtain item where "m key = Some item" and "isize (data item) = Some (sz key)"
    by auto
  moreover from Cons.prems have "\<forall>k \<in> set ks. \<exists>item. m k = Some item \<and> isize (data item) = Some (sz k)"
    by simp
  ultimately show ?case
    by (simp add: Cons.IH entry_size_eq)
qed

text \<open>
  Claim C10. \<open>Size()\<close> counts a stored \<open>nil\<close> as 0 bytes, and an empty string, slice,
  array or map as 0 bytes: a container counts for the sum of the sizes of its elements
  (a string for its length in bytes, a map for its keys and values), with nothing added
  for the container itself. Each entry contributes the length of its key in bytes, the
  size of its value and 8 bytes for its \<open>destroyTimestamp\<close>; \<open>Size()\<close> is the sum of
  these over the entries. Where the source panics there is no size: the sum of a map is
  stated for a map whose keys are equal to themselves (no NaN key), and the sum of
  \<open>Size()\<close> for a cache in which \<open>isize\<close> returns for every stored value.
\<close>

theorem size_counts_contents_only:
  "isize GNil = Some 0 \<and> isize (GString []) = Some 0 \<and> isize (GSlice []) = Some 0 \<and>
   isize (GArray []) = Some 0 \<and> isize (GMap []) = Some 0 \<and>
   isize (GString s) = Some (int (length s)) \<and>
   (list_all2 (\<lambda>x n. isize x = Some n) xs ns \<longrightarrow>
      isize (GSlice xs) = Some (sum_list ns) \<and> isize (GArray xs) = Some (sum_list ns)) \<and>
   (list_all2 (\<lambda>kv n. \<not> has_NaN (fst kv) \<and>
        (\<exists>a b. isize (fst kv) = Some a \<and> isize (snd kv) = Some b \<and> n = a + b)) kvs ms \<longrightarrow>
      isize (GMap kvs) = Some (sum_list ms)) \<and>
   entry_size key item = map_option (\<lambda>d. int (length key) + d + 8) (isize (data item)) \<and>
   entry_size key \<lparr>destroyTimestamp = t, data = GNil\<rparr> = Some (int (length key) + 8) \<and>
   (ranges ks (storage c) \<and> (\<forall>k item. storage c k = Some item \<longrightarrow> isize (data item) = Some (sz k)) \<longrightarrow>
      Size c ks = Some (\<Sum>k\<leftarrow>ks. int (length k) + sz k + 8))"
proof -
  have "Size c ks = Some (\<Sum>k\<leftarrow>ks. int (length k) + sz k + 8)"
    if "ranges ks (storage c)"
      and "\<forall>k item. storage c k = Some item \<longrightarrow> isize (data item) = Some (sz k)"
  proof -
    from that have "\<forall>k \<in> set ks. \<exists>item. storage c k = Some item \<and> isize (data item) = Some (sz k)"
      by (auto simp: ranges_def)
    from Size_range_sum [OF this, of 0] show ?thesis
      by (simp add: Size_def)
  qed
  moreover have "entry_size key \<lparr>destroyTimestamp = t, data = GNil\<rparr> = Some (int (length key) + 8)"
    by (simp add: entry_size_eq)
  moreover have "isize (GString []) = Some 0" "isize (GSlice []) = Some 0"
    "isize (GArray []) = Some 0" "isize (GMap []) = Some 0"
    by simp_all
  ultimately show ?thesis
    using isize_String [of s] isize_Slice [of xs ns] isize_Array [of xs ns] isize_Map [of kvs ms]
      entry_size_eq [of key item]
    by (simp del: isize.simps add: isize.simps(1))
qed

theorem size_counts_contents_only_witness:
  "isize (GSlice [GString ''ab'', GNil, GScalar KInt32 7]) = Some 6 \<and>
   isize (GMap [(GScalar KFloat64 4607182418800017408, GScalar KInt 1),
                (GScalar KFloat64 4611686018427387904, GScalar KInt 2)]) = Some 32 \<and>
   ranges [''k1'', ''key2'']
     (storage \<lparr>storage = [''k1'' \<mapsto> \<lparr>destroyTimestamp = 5, data = GNil\<rparr>,
                           ''key2'' \<mapsto> \<lparr>destroyTimestamp = 6, data = GSlice []\<rparr>], cleanupInterval = - 1\<rparr>) \<and>
   Size \<lparr>storage = [''k1'' \<mapsto> \<lparr>destroyTimestamp = 5, data = GNil\<rparr>,
                    ''key2'' \<mapsto> \<lparr>destroyTimestamp = 6, data = GSlice []\<rparr>], cleanupInterval = - 1\<rparr>
        [''k1'', ''key2''] = Some 22"
proof -
  let ?c = "\<lparr>storage = [''k1'' \<mapsto> \<lparr>destroyTimestamp = 5, data = GNil\<rparr>,
                          ''key2'' \<mapsto> \<lparr>destroyTimestamp = 6, data = GSlice []\<rparr>], cleanupInterval = - 1\<rparr>"
  have xs: "list_all2 (\<lambda>x n. isize x = Some n) [GString ''ab'', GNil, GScalar KInt32 7] [2, 0, 4]"
    by simp
  have kvs: "list_all2 (\<lambda>kv n. \<not> has_NaN (fst kv) \<and>
        (\<exists>a b. isize (fst kv) = Some a \<and> isize (snd kv) = Some b \<and> n = a + b))
      [(GScalar KFloat64 4607182418800017408, GScalar KInt 1),
       (GScalar KFloat64 4611686018427387904, GScalar KInt 2)] [16, 16]"
    by (simp add: float64_is_NaN_def)
  have r: "ranges [''k1'', ''key2''] (storage ?c)"
    by (auto simp: ranges_def)
  have sz: "\<forall>k item. storage ?c k = Some item \<longrightarrow> isize (data item) = Some ((\<lambda>k. 0) k)"
    by auto
  from xs kvs r sz
    size_counts_contents_only [where xs = "[GString ''ab'', GNil, GScalar KInt32 7]" and ns = "[2, 0, 4]"
      and kvs = "[(GScalar KFloat64 4607182418800017408, GScalar KInt 1),
                  (GScalar KFloat64 4611686018427387904, GScalar KInt 2)]" and ms = "[16, 16]"
      and ks = "[''k1'', ''key2'']" and c = ?c and sz = "\<lambda>k. 0"]
  show ?thesis by simp
qed

subsection \<open>Snapshots\<close>

lemma Item_eta: "\<lparr>destroyTimestamp = destroyTimestamp item, data = data item\<rparr> = (item :: Item)"
  by simp

lemma Save_Load_range:
  assumes "\<forall>k \<in> set ks. \<forall>item. m k = Some item \<longrightarrow>
             (\<exists>b. enc (data item) = Some b \<and> dec b = Some (data item))"
  shows "\<exists>d. Save_range enc ks m = Some d \<and>
             (\<forall>acc. Load_decode dec d acc = Some (acc ++ (m |` set ks)))"
  using assms
proof (induction ks)
  case Nil
  show ?case by simp
next
  case (Cons key ks)
  then obtain d where d: "Save_range enc ks m = Some d"
    and load: "\<And>acc. Load_decode dec d acc = Some (acc ++ (m |` set ks))"
    by auto
  show ?case
  proof (cases "m key")
    case None
    then have "m |` set (key # ks) = m |` set ks"
      by (auto simp: restrict_map_def fun_eq_iff)
    with None d load show ?thesis by simp
  next
    case (Some item)
    with Cons.prems obtain b where b: "enc (data item) = Some b" "dec b = Some (data item)"
      by auto
    have "acc(key \<mapsto> item) ++ (m |` set ks) = acc ++ (m |` set (key # ks))" for acc
      using Some by (auto simp: restrict_map_def map_add_def fun_eq_iff split: option.split)
    with Some d load b show ?thesis by (simp add: Item_eta)
  qed
qed

text \<open>
  Claim C3. Let \<open>S\<close> be any state of a store (in particular one produced by a
  sequence of \<open>Add\<close> calls), with a serializer that is lossless on the values stored
  in \<open>S\<close>. \<open>Save\<close> into a buffer succeeds, and \<open>Load\<close> from that buffer on any other
  store \<open>C\<close> succeeds and leaves \<open>C\<close> with exactly the mapping of \<open>S\<close>: the same
  keys, values and \<open>destroyTimestamp\<close>s, expired or not, and no key of \<open>C\<close> that is
  absent from \<open>S\<close>.
\<close>

theorem save_load_round_trip:
  assumes "ranges ks (storage S)"
    and "\<forall>k item. storage S k = Some item \<longrightarrow>
           (\<exists>b. enc (data item) = Some b \<and> dec b = Some (data item))"
  shows "\<exists>d. Save S enc ks True = Inr d \<and>
             Load C dec (Some d) = (None, C\<lparr>storage := storage S\<rparr>) \<and>
             (\<forall>k. storage (snd (Load C dec (Some d))) k = storage S k)"
proof -
  from assms(2) have "\<forall>k \<in> set ks. \<forall>item. storage S k = Some item \<longrightarrow>
      (\<exists>b. enc (data item) = Some b \<and> dec b = Some (data item))"
    by simp
  from Save_Load_range [OF this] obtain d where d: "Save_range enc ks (storage S) = Some d"
    and load: "Load_decode dec d Map.empty = Some (Map.empty ++ (storage S |` set ks))"
    by blast
  from assms(1) have "storage S |` set ks = storage S"
    by (auto simp: ranges_def restrict_map_def fun_eq_iff)
  with d load show ?thesis
    by (simp add: Save_def Load_def)
qed

theorem save_load_round_trip_witness:
  "ranges [''x'', ''old'']
     (storage (Add (Add (fst (Cacher (- 1))) ''x'' (GScalar KInt 1) 60000000000 100)
                 ''old'' (GString ''v'') (- 1000000000) 100)) \<and>
   Save (Add (Add (fst (Cacher (- 1))) ''x'' (GScalar KInt 1) 60000000000 100)
            ''old'' (GString ''v'') (- 1000000000) 100)
        (\<lambda>v. if v = GScalar KInt 1 then Some [1] else if v = GString ''v'' then Some [2] else None)
        [''x'', ''old''] True
     = Inr [(''x'', [1], 160), (''old'', [2], 99)] \<and>
   Get (snd (Load (Add (fst (Cacher 5)) ''y'' (GScalar KInt 2) 0 7)
                  (\<lambda>b. if b = [1] then Some (GScalar KInt 1) else if b = [2] then Some (GString ''v'') else None)
                  (Some [(''x'', [1], 160), (''old'', [2], 99)]))) ''x'' = (GScalar KInt 1, True) \<and>
   Get (snd (Load (Add (fst (Cacher 5)) ''y'' (GScalar KInt 2) 0 7)
                  (\<lambda>b. if b = [1] then Some (GScalar KInt 1) else if b = [2] then Some (GString ''v'') else None)
                  (Some [(''x'', [1], 160), (''old'', [2], 99)]))) ''old'' = (GString ''v'', True) \<and>
   Get (snd (Load (Add (fst (Cacher 5)) ''y'' (GScalar KInt 2) 0 7)
                  (\<lambda>b. if b = [1] then Some (GScalar KInt 1) else if b = [2] then Some (GString ''v'') else None)
                  (Some [(''x'', [1], 160), (''old'', [2], 99)]))) ''y'' = (GNil, False)"
proof -
  let ?S = "Add (Add (fst (Cacher (- 1))) ''x'' (GScalar KInt 1) 60000000000 100)
              ''old'' (GString ''v'') (- 1000000000) 100"
  let ?C = "Add (fst (Cacher 5)) ''y'' (GScalar KInt 2) 0 7"
  let ?enc = "\<lambda>v. if v = GScalar KInt 1 then Some [1 :: 8 word]
                  else if v = GString ''v'' then Some [2] else None"
  let ?dec = "\<lambda>b. if b = [1 :: 8 word] then Some (GScalar KInt 1)
                  else if b = [2] then Some (GString ''v'') else None"
  have t1: "int64_of_float64 (Seconds 60000000000) = 60"
    by code_simp
  have t2: "int64_of_float64 (Seconds (- 1000000000)) = - 1"
    by code_simp
  have S: "storage ?S = [''x'' \<mapsto> \<lparr>destroyTimestamp = 160, data = GScalar KInt 1\<rparr>,
                         ''old'' \<mapsto> \<lparr>destroyTimestamp = 99, data = GString ''v''\<rparr>]"
    by (simp add: Add_def Cacher_def t1 t2)
  have r: "ranges [''x'', ''old''] (storage ?S)"
    unfolding S by (auto simp: ranges_def)
  have lossless: "\<forall>k item. storage ?S k = Some item \<longrightarrow>
      (\<exists>b. ?enc (data item) = Some b \<and> ?dec b = Some (data item))"
    unfolding S by auto
  have save: "Save ?S ?enc [''x'', ''old''] True = Inr [(''x'', [1], 160), (''old'', [2], 99)]"
    unfolding Save_def S by simp
  from save_load_round_trip [OF r lossless, of ?C] save
  have "\<forall>k. storage (snd (Load ?C ?dec (Some [(''x'', [1], 160), (''old'', [2], 99)]))) k = storage ?S k"
    by auto
  then have "Get (snd (Load ?C ?dec (Some [(''x'', [1], 160), (''old'', [2], 99)]))) k
      = (case storage ?S k of None \<Rightarrow> (GNil, False) | Some item \<Rightarrow> (data item, True))" for k
    by (simp add: Get_def)
  from this [of "''x''"] this [of "''old''"] this [of "''y''"] r save show ?thesis
    unfolding S by simp
qed

subsection \<open>The seconds of a time-to-live\<close>

lemma round_half_even_one: "round_half_even n 1 = n"
  by (simp add: round_half_even_def)

lemma round_half_even_ge_div: "0 < d \<Longrightarrow> n div d \<le> round_half_even n d"
  by (simp add: round_half_even_def Let_def)

lemma round_half_even_lower:
  assumes "0 < d" and "k * d \<le> n"
  shows "k \<le> round_half_even n d"
proof -
  from assms have "(k * d) div d \<le> n div d"
    by (intro zdiv_mono1) simp_all
  with assms(1) have "k \<le> n div d" by simp
  also from assms(1) have "\<dots> \<le> round_half_even n d"
    by (rule round_half_even_ge_div)
  finally show ?thesis .
qed

lemma round_half_even_upper:
  assumes "0 < d"
  shows "2 * (round_half_even n d * d) \<le> 2 * n + d"
proof -
  define q r where "q = n div d" and "r = n mod d"
  have n: "n = q * d + r"
    by (simp add: q_def r_def)
  from assms have r: "0 \<le> r" "r < d"
    by (simp_all add: r_def)
  have "round_half_even n d = q \<or> (round_half_even n d = q + 1 \<and> d \<le> 2 * r)"
    by (auto simp: round_half_even_def Let_def q_def r_def)
  then show ?thesis
  proof
    assume "round_half_even n d = q"
    with n r show ?thesis by simp
  next
    assume "round_half_even n d = q + 1 \<and> d \<le> 2 * r"
    with n r show ?thesis by (simp add: algebra_simps)
  qed
qed

lemma float64_exponent_le:
  assumes "0 < p" and "0 < q" and "p < 2 ^ K * q" and "K \<le> 53"
  shows "float64_exponent p q \<le> int K - 53"
proof -
  from assms(1) have bp: "2 ^ nat (bitlen p - 1) \<le> p"
    using bitlen_bounds [of p] by simp
  from assms(2) have bq: "q < 2 ^ nat (bitlen q)"
    using bitlen_bounds [of q] by simp
  have "(2 :: int) ^ nat (bitlen p - 1) < 2 ^ K * 2 ^ nat (bitlen q)"
  proof -
    note bp
    also note assms(3)
    also from bq have "2 ^ K * q < 2 ^ K * 2 ^ nat (bitlen q)"
      by simp
    finally show ?thesis .
  qed
  then have "(2 :: int) ^ nat (bitlen p - 1) < 2 ^ (K + nat (bitlen q))"
    by (simp add: power_add)
  then have "nat (bitlen p - 1) < K + nat (bitlen q)"
    by simp
  with bitlen_nonneg [of q] have le: "bitlen p - bitlen q \<le> int K"
    by linarith
  show ?thesis
  proof (cases "bitlen p - bitlen q = int K")
    case True
    with assms(3) have "frac_less_pow2 p q (bitlen p - bitlen q - 53 + 53)"
      by (simp add: frac_less_pow2_def mult.commute)
    with True assms(4) show ?thesis
      by (simp add: float64_exponent_def Let_def)
  next
    case False
    with le assms(4) show ?thesis
      by (simp add: float64_exponent_def Let_def)
  qed
qed

lemma float64_round_small:
  assumes "0 < p" and "0 < q" and "p < 2 ^ K * q" and "K \<le> 53"
  shows "\<exists>k. 53 \<le> k + K \<and> float64_round p q = (round_half_even (p * 2 ^ k) q, 2 ^ k)"
proof -
  define e where "e = float64_exponent p q"
  from assms have e: "e \<le> int K - 53"
    unfolding e_def by (rule float64_exponent_le)
  with assms(4) have "e \<le> 0" by simp
  have "float64_round p q = (round_half_even (p * 2 ^ nat (- e)) q, 2 ^ nat (- e))"
  proof (cases "e = 0")
    case True
    with assms(1) show ?thesis
      by (simp add: float64_round_def e_def [symmetric])
  next
    case False
    with \<open>e \<le> 0\<close> have "\<not> 0 \<le> e" by simp
    with assms(1) show ?thesis
      by (simp add: float64_round_def e_def [symmetric])
  qed
  moreover from e have "53 \<le> nat (- e) + K" by simp
  ultimately show ?thesis by blast
qed

lemma float64_round_minus:
  "float64_round (- p) q = (case float64_round p q of (a, b) \<Rightarrow> (- a, b))"
  by (simp add: float64_round_def Let_def)

text \<open>An integer below \<open>2 ^ 53\<close> is converted exactly.\<close>

lemma float64_of_int_exact:
  assumes "0 \<le> i" and "i < 2 ^ 53"
  shows "\<exists>b. 0 < b \<and> float64_of_int i = (i * b, b)"
proof (cases "i = 0")
  case True
  then have "float64_of_int i = (i * 1, 1)"
    by (simp add: float64_of_int_def float64_round_def)
  then show ?thesis by (intro exI [of _ 1]) simp
next
  case False
  with assms have "0 < i" and "i < 2 ^ 53 * 1" by simp_all
  from float64_round_small [OF this(1) _ this(2)] obtain k
    where "float64_round i 1 = (round_half_even (i * 2 ^ k) 1, 2 ^ k)"
    by auto
  then have "float64_of_int i = (i * 2 ^ k, 2 ^ k)"
    by (simp add: float64_of_int_def round_half_even_one)
  then show ?thesis by (intro exI [of _ "2 ^ k"]) simp
qed

text \<open>
  The quotient \<open>n / 10^9\<close> of the nanoseconds: the result \<open>m / A\<close> is at most
  \<open>n / 10^9 + 2^-54\<close>.
\<close>

lemma float64_div_nsec:
  assumes "0 \<le> n" and "n < 1000000000" and "0 < b"
  shows "\<exists>m A. float64_div (n * b, b) (1000000000, 1) = (m, A) \<and> 0 < A \<and> 0 \<le> m \<and>
           2 * m * 1000000000 * 2 ^ 53 \<le> (2 * n * 2 ^ 53 + 1000000000) * A"
proof (cases "n = 0")
  case True
  then have "float64_div (n * b, b) (1000000000, 1) = (0, 1)"
    by (simp add: float64_round_def)
  with True show ?thesis by simp
next
  case False
  define P Q where "P = n * b" and "Q = b * 1000000000"
  from False assms have P: "0 < P" and Q: "0 < Q"
    by (simp_all add: P_def Q_def)
  from assms have "P < 2 ^ 0 * Q"
    by (simp add: P_def Q_def mult.commute)
  from float64_round_small [OF P Q this] obtain k
    where k: "53 \<le> k" and round: "float64_round P Q = (round_half_even (P * 2 ^ k) Q, 2 ^ k)"
    by auto
  define m where "m = round_half_even (P * 2 ^ k) Q"
  define A :: int where "A = 2 ^ k"
  have A: "0 < A" by (simp add: A_def)
  from k have "(2 :: int) ^ 53 \<le> 2 ^ k"
    by (intro power_increasing) simp_all
  then have A53: "2 ^ 53 \<le> A" by (simp add: A_def)
  have m0: "0 \<le> m"
  proof -
    from P A have "0 * Q \<le> P * A" by simp
    with Q show ?thesis
      unfolding m_def A_def by (intro round_half_even_lower)
  qed
  from Q have "2 * (m * Q) \<le> 2 * (P * A) + Q"
    unfolding m_def A_def by (rule round_half_even_upper)
  then have "b * (2 * m * 1000000000) \<le> b * (2 * n * A + 1000000000)"
    by (simp add: P_def Q_def algebra_simps)
  with assms(3) have bound: "2 * m * 1000000000 \<le> 2 * n * A + 1000000000"
    by simp
  have "2 * m * 1000000000 * 2 ^ 53 \<le> (2 * n * 2 ^ 53 + 1000000000) * A"
  proof -
    from bound have "2 * m * 1000000000 * 2 ^ 53 \<le> (2 * n * A + 1000000000) * 2 ^ 53"
      by simp
    also have "\<dots> = 2 * n * 2 ^ 53 * A + 1000000000 * 2 ^ 53"
      by (simp add: algebra_simps)
    also from A53 have "\<dots> \<le> 2 * n * 2 ^ 53 * A + 1000000000 * A"
      by simp
    also have "\<dots> = (2 * n * 2 ^ 53 + 1000000000) * A"
      by (simp add: algebra_simps)
    finally show ?thesis .
  qed
  moreover have "float64_div (n * b, b) (1000000000, 1) = (m, A)"
    using round by (simp add: P_def Q_def m_def A_def)
  ultimately show ?thesis
    using A m0 by blast
qed

text \<open>
  The sum of whole seconds \<open>s < 2 ^ 24\<close> and a fraction \<open>m / A\<close> that is at most
  \<open>(10^9 - 1) / 10^9 + 2^-54\<close>: the result lies in \<open>[s, s + 1)\<close>.
\<close>

lemma float64_add_sec:
  assumes "0 \<le> s" and "s < 2 ^ 24" and "0 < b" and "0 < A" and "0 \<le> m"
    and m: "2 * m * 1000000000 * 2 ^ 53 \<le> (2 * 999999999 * 2 ^ 53 + 1000000000) * A"
  shows "\<exists>a B. float64_add (s * b, b) (m, A) = (a, B) \<and> 0 < B \<and> s * B \<le> a \<and> a < (s + 1) * B"
proof -
  define P Q where "P = b * (s * A + m)" and "Q = b * A"
  have add: "float64_add (s * b, b) (m, A) = float64_round P Q"
    by (simp add: P_def Q_def algebra_simps)
  from assms have Q: "0 < Q" by (simp add: Q_def)
  from m assms(4) have mA: "m < A" by simp
  show ?thesis
  proof (cases "P = 0")
    case True
    with assms have "s * A + m = 0" by (simp add: P_def)
    moreover from assms have "0 \<le> s * A" by simp
    ultimately have "s * A = 0" using assms(5) by linarith
    with assms(4) have "s = 0" by simp
    moreover from True add have "float64_add (s * b, b) (m, A) = (0, 1)"
      by (simp add: float64_round_def)
    ultimately show ?thesis by simp
  next
    case False
    from assms have "0 \<le> s * A + m" by simp
    with assms(3) have "0 \<le> P" by (simp add: P_def)
    with False have P: "0 < P" by simp
    have "s * A + m < 2 ^ 24 * A"
    proof -
      from assms(2) have "s + 1 \<le> 2 ^ 24" by simp
      with assms(4) have "(s + 1) * A \<le> 2 ^ 24 * A"
        by (intro mult_right_mono) simp_all
      with mA show ?thesis by (simp add: algebra_simps)
    qed
    with assms(3) have "b * (s * A + m) < b * (2 ^ 24 * A)"
      by (intro mult_strict_left_mono)
    then have "P < 2 ^ 24 * Q"
      by (simp add: P_def Q_def algebra_simps)
    from float64_round_small [OF P Q this] obtain k
      where k: "29 \<le> k" and round: "float64_round P Q = (round_half_even (P * 2 ^ k) Q, 2 ^ k)"
      by auto
    define a where "a = round_half_even (P * 2 ^ k) Q"
    define B :: int where "B = 2 ^ k"
    have B: "0 < B" by (simp add: B_def)
    from k have "(2 :: int) ^ 29 \<le> 2 ^ k"
      by (intro power_increasing) simp_all
    then have B29: "2 ^ 29 \<le> B" by (simp add: B_def)
    have lower: "s * B \<le> a"
    proof -
      from assms have "s * Q \<le> P"
        by (simp add: P_def Q_def algebra_simps)
      with B have "s * Q * B \<le> P * B"
        by (intro mult_right_mono) simp_all
      then have "s * B * Q \<le> P * B"
        by (simp add: mult.commute mult.left_commute)
      with Q show ?thesis
        unfolding a_def B_def by (intro round_half_even_lower)
    qed
    have upper: "a < (s + 1) * B"
    proof (rule ccontr)
      assume "\<not> a < (s + 1) * B"
      then have "(s + 1) * B \<le> a" by simp
      with Q have "(s + 1) * B * Q \<le> a * Q"
        by (intro mult_right_mono) simp_all
      moreover from Q have "2 * (a * Q) \<le> 2 * (P * B) + Q"
        unfolding a_def B_def by (rule round_half_even_upper)
      ultimately have "2 * ((s + 1) * B * Q) \<le> 2 * (P * B) + Q"
        by linarith
      then have "b * (2 * (A * B)) \<le> b * (2 * (m * B) + A)"
        by (simp add: P_def Q_def algebra_simps)
      with assms(3) have h1: "2 * (A * B) \<le> 2 * (m * B) + A"
        by simp
      have "18014398509481984000000000 * (m * B) = 2 * m * 1000000000 * 2 ^ 53 * B"
        by simp
      also from m B have "\<dots> \<le> (2 * 999999999 * 2 ^ 53 + 1000000000) * A * B"
        by (intro mult_right_mono) simp_all
      also have "\<dots> = 18014398491467586490518016 * (A * B)"
        by simp
      finally have h2: "18014398509481984000000000 * (m * B) \<le> 18014398491467586490518016 * (A * B)" .
      from B29 assms(4) have "A * 2 ^ 29 \<le> A * B"
        by (intro mult_left_mono) simp_all
      then have h3: "536870912 * A \<le> A * B"
        by simp
      from h1 h2 h3 assms(4) show False
        by linarith
    qed
    from add round lower upper B show ?thesis
      by (simp add: a_def B_def)
  qed
qed

lemma float64_of_int_minus:
  "float64_of_int (- i) = (case float64_of_int i of (a, b) \<Rightarrow> (- a, b))"
  by (simp add: float64_of_int_def float64_round_minus)

lemma float64_div_minus:
  "float64_div (- a, b) (c, d) = (case float64_div (a, b) (c, d) of (a', b') \<Rightarrow> (- a', b'))"
  using float64_round_minus [of "sgn c * a * d" "b * \<bar>c\<bar>"] by simp

lemma float64_add_minus:
  "float64_add (- a, b) (- c, d) = (case float64_add (a, b) (c, d) of (a', b') \<Rightarrow> (- a', b'))"
  using float64_round_minus [of "a * d + c * b" "b * d"] by (simp add: algebra_simps)

text \<open>
  \<open>Seconds\<close> of \<open>s\<close> whole seconds and \<open>n\<close> nanoseconds, for \<open>s < 2 ^ 24\<close>: a number
  in \<open>[s, s + 1)\<close>; and the same with the opposite sign for the opposite duration.
\<close>

lemma Seconds_parts:
  assumes "0 \<le> s" and "s < 2 ^ 24" and "0 \<le> n" and "n < 1000000000"
  shows "\<exists>a B. 0 < B \<and> s * B \<le> a \<and> a < (s + 1) * B \<and>
           float64_add (float64_of_int s) (float64_div (float64_of_int n) (1000000000, 1)) = (a, B) \<and>
           float64_add (float64_of_int (- s)) (float64_div (float64_of_int (- n)) (1000000000, 1))
             = (- a, B)"
proof -
  from assms(1,2) have "s < 2 ^ 53" by simp
  with assms(1) obtain b where b: "0 < b" "float64_of_int s = (s * b, b)"
    using float64_of_int_exact by blast
  from assms(3,4) have "n < 2 ^ 53" by simp
  with assms(3) obtain b' where b': "0 < b'" "float64_of_int n = (n * b', b')"
    using float64_of_int_exact by blast
  from float64_div_nsec [OF assms(3,4) b'(1)] obtain m A
    where div: "float64_div (n * b', b') (1000000000, 1) = (m, A)" and A: "0 < A" and m: "0 \<le> m"
      and bound: "2 * m * 1000000000 * 2 ^ 53 \<le> (2 * n * 2 ^ 53 + 1000000000) * A"
    by blast
  have "2 * m * 1000000000 * 2 ^ 53 \<le> (2 * 999999999 * 2 ^ 53 + 1000000000) * A"
  proof -
    from assms(4) have "2 * n * 2 ^ 53 + 1000000000 \<le> 2 * 999999999 * 2 ^ 53 + (1000000000 :: int)"
      by simp
    with A have "(2 * n * 2 ^ 53 + 1000000000) * A \<le> (2 * 999999999 * 2 ^ 53 + 1000000000) * A"
      by (intro mult_right_mono) simp_all
    with bound show ?thesis by linarith
  qed
  from float64_add_sec [OF assms(1,2) b(1) A m this] obtain a B
    where add: "float64_add (s * b, b) (m, A) = (a, B)" and B: "0 < B"
      and range: "s * B \<le> a" "a < (s + 1) * B"
    by blast
  from b'(2) have "float64_of_int (- n) = (- (n * b'), b')"
    by (simp add: float64_of_int_minus)
  moreover from div have "float64_div (- (n * b'), b') (1000000000, 1) = (- m, A)"
    by (simp add: float64_div_minus del: float64_div.simps)
  moreover from b(2) have "float64_of_int (- s) = (- (s * b), b)"
    by (simp add: float64_of_int_minus)
  moreover from add have "float64_add (- (s * b), b) (- m, A) = (- a, B)"
    by (simp add: float64_add_minus del: float64_add.simps)
  ultimately have "float64_add (float64_of_int (- s)) (float64_div (float64_of_int (- n)) (1000000000, 1))
      = (- a, B)"
    by (simp del: float64_div.simps float64_add.simps)
  moreover from add div b(2) b'(2)
  have "float64_add (float64_of_int s) (float64_div (float64_of_int n) (1000000000, 1)) = (a, B)"
    by (simp del: float64_div.simps float64_add.simps)
  ultimately show ?thesis
    using B range by blast
qed

lemma int64_of_float64_Seconds:
  assumes "\<bar>sint ttl\<bar> < 2 ^ 24 * 1000000000"
  shows "int64_of_float64 (Seconds ttl) = word_of_int (sint ttl sdiv 1000000000)"
proof -
  define x where "x = sint ttl"
  define s n where "s = \<bar>x\<bar> div 1000000000" and "n = \<bar>x\<bar> mod 1000000000"
  have s0: "0 \<le> s" and n: "0 \<le> n" "n < 1000000000"
    by (simp_all add: s_def n_def)
  from assms have "\<bar>x\<bar> < 16777216 * 1000000000"
    by (simp add: x_def)
  moreover have "\<bar>x\<bar> = s * 1000000000 + n"
    by (simp add: s_def n_def)
  ultimately have s: "s < 2 ^ 24"
    using n(1) by simp
  from Seconds_parts [OF s0 s n] obtain a B
    where B: "0 < B" and range: "s * B \<le> a" "a < (s + 1) * B"
      and pos: "float64_add (float64_of_int s) (float64_div (float64_of_int n) (1000000000, 1)) = (a, B)"
      and neg: "float64_add (float64_of_int (- s)) (float64_div (float64_of_int (- n)) (1000000000, 1))
             = (- a, B)"
    by blast
  from s0 B range have a0: "0 \<le> a"
    by (meson mult_nonneg_nonneg less_imp_le order_trans)
  from range B have adiv: "a div B = s"
    by (intro int_div_pos_eq [where r = "a - s * B"]) (simp_all add: algebra_simps)
  show ?thesis
  proof (cases "0 \<le> x")
    case True
    then have "x sdiv 1000000000 = s" and "x smod 1000000000 = n"
      by (simp_all add: signed_divide_int_def signed_modulo_int_def s_def n_def sgn_if)
    moreover from a0 B adiv have "a sdiv B = s"
      by (auto simp: signed_divide_int_def sgn_if)
    ultimately show ?thesis
      using pos by (simp add: Seconds_def x_def [symmetric])
  next
    case False
    then have "x sdiv 1000000000 = - s" and "x smod 1000000000 = - n"
      by (simp_all add: signed_divide_int_def signed_modulo_int_def s_def n_def sgn_if)
    moreover have "(- a) sdiv B = - s"
    proof (cases "a = 0")
      case True
      with adiv show ?thesis by simp
    next
      case False
      with a0 B adiv show ?thesis
        by (simp add: signed_divide_int_def sgn_if)
    qed
    ultimately show ?thesis
      using neg by (simp add: Seconds_def x_def [symmetric])
  qed
qed

text \<open>
  Claim C8 says that, for every \<open>ttl\<close>, \<open>Add\<close> stores the clock reading plus the
  seconds of \<open>ttl\<close> truncated towards zero. The seconds go through \<^verbatim>\<open>float64\<close>: for
  \<open>ttl = 16777216.999999999 s\<close> the sum \<^verbatim>\<open>float64(sec) + float64(nsec)/1e9\<close> rounds to
  \<open>16777217\<close>, and the stored \<open>destroyTimestamp\<close> is one second later than the
  truncation gives.
\<close>

theorem add_rounds_up_long_ttl:
  "storage (Add (fst (Cacher (- 1))) ''k'' GNil 16777216999999999 100) ''k''
     = Some \<lparr>destroyTimestamp = 100 + 16777217, data = GNil\<rparr> \<and>
   sint (16777216999999999 :: int64) sdiv 1000000000 = 16777216 \<and>
   storage (Add (fst (Cacher (- 1))) ''k'' GNil 16777216999999999 100) ''k''
     \<noteq> Some \<lparr>destroyTimestamp = 100 + word_of_int (sint (16777216999999999 :: int64) sdiv 1000000000),
              data = GNil\<rparr>"
proof -
  have f: "int64_of_float64 (Seconds 16777216999999999) = 16777217"
    by code_simp
  have t: "sint (16777216999999999 :: int64) sdiv 1000000000 = 16777216"
    by (simp add: signed_divide_int_def)
  from f t show ?thesis
    by (simp add: Add_def)
qed

text \<open>
  Claim C8, amended. For every \<open>ttl\<close> below \<open>2 ^ 24\<close> seconds in magnitude (about 194
  days), \<open>Add\<close> stores \<open>destroyTimestamp = now + (ttl in seconds, truncated towards zero)\<close>.
  Consequently, for \<open>-1s < ttl < 1s\<close> the stored \<open>destroyTimestamp\<close> is the clock
  reading \<open>now\<close> itself, and a \<open>Cleanup\<close> that reads the same second removes the entry.
\<close>

theorem add_stores_truncated_seconds:
  assumes "\<bar>sint ttl\<bar> < 2 ^ 24 * 1000000000"
  shows "storage (Add c k v ttl now) k
           = Some \<lparr>destroyTimestamp = now + word_of_int (sint ttl sdiv 1000000000), data = v\<rparr> \<and>
         (\<bar>sint ttl\<bar> < 1000000000 \<longrightarrow>
            storage (Add c k v ttl now) k = Some \<lparr>destroyTimestamp = now, data = v\<rparr> \<and>
            (\<forall>ks. ranges ks (storage (Add c k v ttl now)) \<longrightarrow>
               storage (Cleanup (Add c k v ttl now) (map (\<lambda>k. (k, now)) ks)) k = None))"
proof (intro conjI impI allI)
  from assms show stored: "storage (Add c k v ttl now) k
      = Some \<lparr>destroyTimestamp = now + word_of_int (sint ttl sdiv 1000000000), data = v\<rparr>"
    by (simp add: Add_def int64_of_float64_Seconds)
  assume "\<bar>sint ttl\<bar> < 1000000000"
  then have "sint ttl sdiv 1000000000 = 0"
    by (simp add: signed_divide_int_def)
  with stored show now: "storage (Add c k v ttl now) k = Some \<lparr>destroyTimestamp = now, data = v\<rparr>"
    by simp
  fix ks
  assume "ranges ks (storage (Add c k v ttl now))"
  with now have "k \<in> set ks" and "distinct ks"
    by (auto simp: ranges_def)
  then have "(k, now) \<in> set (map (\<lambda>k. (k, now)) ks)"
    and "distinct (map fst (map (\<lambda>k. (k, now)) ks))"
    by (auto simp: comp_def)
  then have "Cleanup_range (map (\<lambda>k. (k, now)) ks) (storage (Add c k v ttl now)) k =
      (if destroyTimestamp \<lparr>destroyTimestamp = now, data = v\<rparr> \<le>s now then None
       else Some \<lparr>destroyTimestamp = now, data = v\<rparr>)"
    using now by (intro Cleanup_range_visited)
  then show "storage (Cleanup (Add c k v ttl now) (map (\<lambda>k. (k, now)) ks)) k = None"
    by (simp add: Cleanup_def word_sle_eq)
qed

theorem add_stores_truncated_seconds_witness:
  "\<bar>sint (1500000000 :: int64)\<bar> < 2 ^ 24 * 1000000000 \<and>
   storage (Add (fst (Cacher (- 1))) ''k'' GNil 1500000000 100) ''k''
     = Some \<lparr>destroyTimestamp = 101, data = GNil\<rparr> \<and>
   storage (Add (fst (Cacher (- 1))) ''k'' GNil (- 1500000000) 100) ''k''
     = Some \<lparr>destroyTimestamp = 99, data = GNil\<rparr> \<and>
   \<bar>sint (500000000 :: int64)\<bar> < 1000000000 \<and>
   storage (Add (fst (Cacher (- 1))) ''k'' GNil 500000000 100) ''k''
     = Some \<lparr>destroyTimestamp = 100, data = GNil\<rparr> \<and>
   ranges [''k''] (storage (Add (fst (Cacher (- 1))) ''k'' GNil 500000000 100)) \<and>
   storage (Cleanup (Add (fst (Cacher (- 1))) ''k'' GNil 500000000 100) [(''k'', 100)]) ''k'' = None"
proof -
  let ?c = "fst (Cacher (- 1))"
  have a: "\<bar>sint (1500000000 :: int64)\<bar> < 2 ^ 24 * 1000000000"
    and a': "\<bar>sint (- 1500000000 :: int64)\<bar> < 2 ^ 24 * 1000000000"
    and b: "\<bar>sint (500000000 :: int64)\<bar> < 2 ^ 24 * 1000000000"
    and b': "\<bar>sint (500000000 :: int64)\<bar> < 1000000000"
    by simp_all
  have d: "sint (1500000000 :: int64) sdiv 1000000000 = 1"
    "sint (- 1500000000 :: int64) sdiv 1000000000 = - 1"
    by (simp_all add: signed_divide_int_def)
  have r: "ranges [''k''] (storage (Add ?c ''k'' GNil 500000000 100))"
    by (auto simp: ranges_def Add_def Cacher_def)
  from add_stores_truncated_seconds [OF b, of ?c "''k''" GNil 100] b' r
  have sub: "storage (Add ?c ''k'' GNil 500000000 100) ''k'' = Some \<lparr>destroyTimestamp = 100, data = GNil\<rparr>"
    and "storage (Cleanup (Add ?c ''k'' GNil 500000000 100) (map (\<lambda>k. (k, 100)) [''k''])) ''k'' = None"
    by blast+
  then have swept: "storage (Cleanup (Add ?c ''k'' GNil 500000000 100) [(''k'', 100)]) ''k'' = None"
    by simp
  from add_stores_truncated_seconds [OF a, of ?c "''k''" GNil 100]
    add_stores_truncated_seconds [OF a', of ?c "''k''" GNil 100]
    a b' d r sub swept
  show ?thesis by simp
qed

subsection \<open>The seconds of a time-to-live of any length\<close>





subsection \<open>Entries are replaced, never changed in place\<close>





end
